theory Spec2Isabelle
  imports Complex_Main "HOL-Library.AList" "HOL-Library.Sublist" "HOL-Library.Multiset"
begin

section \<open>LensKit algorithm protocol: a shallow embedding of \<^verbatim>\<open>lenskit/algorithms/__init__.py\<close>\<close>

text \<open>
  The module defines three abstract capabilities (\<^verbatim>\<open>Algorithm\<close>, \<^verbatim>\<open>Predictor\<close>,
  \<^verbatim>\<open>Recommender\<close>).  Four of its methods have a body of their own:
  \<^verbatim>\<open>Algorithm.get_params\<close>, \<^verbatim>\<open>Algorithm.load\<close>, \<^verbatim>\<open>Predictor.predict\<close> and
  \<^verbatim>\<open>Recommender.adapt\<close>.  Each is translated below; every \<^verbatim>\<open>raise\<close> of the source
  and every exception of the pandas operations it calls is a value of type \<open>error\<close>.
\<close>

datatype error =
    NotImplementedError
  | ValueError
  | KeyError
  | AttributeError
  | FileNotFoundError

section \<open>Python values and algorithm instances\<close>

text \<open>
  A Python value is one of three kinds.
  \<^item> A plain value (a number, a string, \<^verbatim>\<open>None\<close>, a bound method): it has no
    \<^verbatim>\<open>get_params\<close> attribute and no instance dictionary.
  \<^item> An algorithm instance, which inherits the \<^verbatim>\<open>get_params\<close> of \<^verbatim>\<open>Algorithm\<close>.  It
    is given by what the methods read: the parameter names that
    \<^verbatim>\<open>inspect.signature(self.__class__)\<close> lists, in order (\<open>None\<close> when the class has
    no signature that can be inspected and \<^verbatim>\<open>inspect.signature\<close> raises
    \<^verbatim>\<open>ValueError\<close>); the properties of its class, each of which returns a value or
    raises when read; the other attributes of its class (class variables and methods);
    and its instance dictionary \<^verbatim>\<open>__dict__\<close>.
  \<^item> A foreign object: it has a \<^verbatim>\<open>get_params\<close> of its own (an estimator of another
    library, or a subclass that overrides the method), given by what a call of it
    returns or raises, and an instance dictionary.

  Dictionaries are association lists in insertion order.  Values are finite trees, so
  an object graph with a cycle (on which the source recurses until Python's recursion
  limit) is not a value of this type.
\<close>

datatype pyval =
    Plain int
  | Foreign (foreign_params: "error + (string \<times> pyval) list")
            (foreign_dict: "(string \<times> pyval) list")
  | Algo (sig_params: "string list option")
         (properties: "(string \<times> (error + pyval)) list")
         (class_values: "(string \<times> pyval) list")
         (inst_dict: "(string \<times> pyval) list")

type_synonym pydict = "(string \<times> pyval) list"

text \<open>\<^verbatim>\<open>d[k] = v\<close> on a Python dict: an existing key keeps its position, a new one is
  appended.  This is \<^const>\<open>AList.update\<close>.\<close>

definition setitem :: "string \<Rightarrow> pyval \<Rightarrow> pydict \<Rightarrow> pydict" where
  "setitem k v d = AList.update k v d"

text \<open>
  \<^verbatim>\<open>getattr(self, name)\<close> on an algorithm instance, in Python's lookup order: a
  property of the class (a data descriptor) first, then the instance dictionary, then
  the other attributes of the class; \<^verbatim>\<open>AttributeError\<close> when none has the name.
  \<^verbatim>\<open>hasattr(self, name)\<close> calls \<^verbatim>\<open>getattr\<close>: it is false when that raises
  \<^verbatim>\<open>AttributeError\<close>, and any other exception propagates.  A property answers the
  same way each time it is read, so the \<^verbatim>\<open>getattr\<close> that follows a true
  \<^verbatim>\<open>hasattr\<close> returns the value.
\<close>

definition getattr ::
  "(string \<times> (error + pyval)) list \<Rightarrow> pydict \<Rightarrow> pydict \<Rightarrow> string \<Rightarrow> error + pyval" where
  "getattr props cvals d name =
     (case map_of props name of
        Some r \<Rightarrow> r
      | None \<Rightarrow>
          (case map_of d name of
             Some v \<Rightarrow> Inr v
           | None \<Rightarrow>
               (case map_of cvals name of
                  Some v \<Rightarrow> Inr v
                | None \<Rightarrow> Inl AttributeError)))"

definition hasattr ::
  "(string \<times> (error + pyval)) list \<Rightarrow> pydict \<Rightarrow> pydict \<Rightarrow> string \<Rightarrow> error + bool" where
  "hasattr props cvals d name =
     (case getattr props cvals d name of
        Inr v \<Rightarrow> Inr True
      | Inl e \<Rightarrow> if e = AttributeError then Inr False else Inl e)"

text \<open>\<^verbatim>\<open>hasattr(value, 'get_params')\<close> on an attribute's value.\<close>

fun has_get_params :: "pyval \<Rightarrow> bool" where
  "has_get_params (Plain v) = False"
| "has_get_params (Foreign r d) = True"
| "has_get_params (Algo sig props cvals d) = True"

subsection \<open>\<^verbatim>\<open>Algorithm.get_params\<close> (lines 37 to 62)\<close>

lemma map_of_size_less:
  "map_of d name = Some v \<Longrightarrow> size v < Suc (size_list (size_prod (\<lambda>_. 0) size) d)"
  by (induction d) (auto split: if_splits)

lemma map_of_props_size_less:
  "map_of props name = Some (Inr v) \<Longrightarrow>
     size v < Suc (size_list (size_prod (\<lambda>_. 0) (size_sum (\<lambda>_. 0) size)) props)"
  by (induction props) (auto split: if_splits)

lemma getattr_size_less:
  "getattr props cvals d name = Inr v \<Longrightarrow>
     size v < Suc (size_list (size_prod (\<lambda>_. 0) (size_sum (\<lambda>_. 0) size)) props
       + size_list (size_prod (\<lambda>_. 0) size) cvals + size_list (size_prod (\<lambda>_. 0) size) d)"
  by (auto simp add: getattr_def split: option.splits
      dest!: map_of_size_less map_of_props_size_less)

text \<open>
  The method, \<^verbatim>\<open>self.get_params(deep)\<close>, and its loop over the parameter names with
  the dictionary \<^verbatim>\<open>params\<close> built so far.  Every statement of the source that can
  raise is a branch: \<^verbatim>\<open>inspect.signature\<close>, \<^verbatim>\<open>hasattr(self, name)\<close>,
  \<^verbatim>\<open>getattr(self, name)\<close> and the nested \<^verbatim>\<open>value.get_params(deep)\<close>.  A plain value
  has no such method.
\<close>

function get_params :: "pyval \<Rightarrow> bool \<Rightarrow> error + pydict"
  and get_params_loop ::
    "bool \<Rightarrow> (string \<times> (error + pyval)) list \<Rightarrow> pydict \<Rightarrow> pydict \<Rightarrow> string list \<Rightarrow> pydict
       \<Rightarrow> error + pydict" where
  "get_params (Plain v) deep = Inl AttributeError"
| "get_params (Foreign r d) deep = r"
| "get_params (Algo sig props cvals d) deep =
     (case sig of
        None \<Rightarrow> Inl ValueError
      | Some names \<Rightarrow> get_params_loop deep props cvals d names [])"
| "get_params_loop deep props cvals d [] params = Inr params"
| "get_params_loop deep props cvals d (name # names) params =
     (case hasattr props cvals d name of
        Inl e \<Rightarrow> Inl e
      | Inr False \<Rightarrow> get_params_loop deep props cvals d names params
      | Inr True \<Rightarrow>
          (case getattr props cvals d name of
             Inl e \<Rightarrow> Inl e
           | Inr value \<Rightarrow>
               (let params1 = setitem name value params in
                if deep \<and> has_get_params value then
                  (case get_params value deep of
                     Inl e \<Rightarrow> Inl e
                   | Inr sps \<Rightarrow>
                       get_params_loop deep props cvals d names
                         (fold (\<lambda>(k, sv). setitem (name @ ''__'' @ k) sv) sps params1))
                else get_params_loop deep props cvals d names params1)))"
  by pat_completeness auto
termination
  by (relation "inv_image (less_than <*lex*> less_than)
       (\<lambda>x. case x of
          Inl (v, deep) \<Rightarrow> (size v, 0)
        | Inr (deep, props, cvals, d, names, params) \<Rightarrow>
            (size_list (size_prod (\<lambda>_. 0) (size_sum (\<lambda>_. 0) size)) props
               + size_list (size_prod (\<lambda>_. 0) size) cvals
               + size_list (size_prod (\<lambda>_. 0) size) d, Suc (length names)))")
     (auto dest!: getattr_size_less)

text \<open>The nested parameters that the loop merges in under a name: what the value's
  \<^verbatim>\<open>get_params\<close> returned, when \<open>deep\<close> is set and the attribute's value has one; none
  otherwise.  This names the inner call for the statements below.\<close>

definition sub_params ::
  "bool \<Rightarrow> (string \<times> (error + pyval)) list \<Rightarrow> pydict \<Rightarrow> pydict \<Rightarrow> string \<Rightarrow> pydict" where
  "sub_params deep props cvals d name =
     (case getattr props cvals d name of
        Inr value \<Rightarrow>
          if deep \<and> has_get_params value then
            (case get_params value deep of Inr sps \<Rightarrow> sps | Inl e \<Rightarrow> [])
          else []
      | Inl e \<Rightarrow> [])"

subsection \<open>\<^verbatim>\<open>Algorithm.load\<close> (lines 75 to 86)\<close>

text \<open>
  The file system maps a path to the object pickled there; \<^verbatim>\<open>pickle.load\<close> returns a
  copy of it.  A missing file makes \<^verbatim>\<open>path.open('rb')\<close> raise; an object without a
  \<^verbatim>\<open>__dict__\<close> makes the attribute access raise.
  \<^verbatim>\<open>self.__dict__.update(obj.__dict__)\<close> assigns the loaded entries one by one, in
  order.  The class of \<^verbatim>\<open>self\<close> (its constructor signature, its properties and its
  other attributes) is not touched.
\<close>

type_synonym filesystem = "string \<Rightarrow> pyval option"

fun instance_dict :: "pyval \<Rightarrow> error + pydict" where
  "instance_dict (Plain v) = Inl AttributeError"
| "instance_dict (Foreign r d) = Inr d"
| "instance_dict (Algo sig props cvals d) = Inr d"

fun with_instance_dict :: "pyval \<Rightarrow> pydict \<Rightarrow> pyval" where
  "with_instance_dict (Plain v) d' = Plain v"
| "with_instance_dict (Foreign r d) d' = Foreign r d'"
| "with_instance_dict (Algo sig props cvals d) d' = Algo sig props cvals d'"

definition dict_update :: "pydict \<Rightarrow> pydict \<Rightarrow> pydict" where
  "dict_update d other = fold (\<lambda>(k, v). setitem k v) other d"

definition load :: "filesystem \<Rightarrow> pyval \<Rightarrow> string \<Rightarrow> error + pyval" where
  "load fs self file =
     (case fs file of
        None \<Rightarrow> Inl FileNotFoundError
      | Some obj \<Rightarrow>
          (case instance_dict self of
             Inl e \<Rightarrow> Inl e
           | Inr d \<Rightarrow>
               (case instance_dict obj of
                  Inl e \<Rightarrow> Inl e
                | Inr d' \<Rightarrow> Inr (with_instance_dict self (dict_update d d')))))"

section \<open>\<^verbatim>\<open>Predictor.predict\<close> (lines 96 to 122)\<close>

text \<open>
  The pandas operations that \<^verbatim>\<open>predict\<close> calls are modelled as pandas 1.x and 2.x
  perform them; where an earlier release differs, the text says so.
  A pandas \<^verbatim>\<open>DataFrame\<close> is its rows in order; each row carries its index label and
  its cells.  The \<^verbatim>\<open>pairs\<close> argument has the columns \<^verbatim>\<open>user\<close> and \<^verbatim>\<open>item\<close> and
  possibly others (\<open>row_rest\<close>).  A \<^verbatim>\<open>Series\<close> is a list of (index label, value)
  entries, in order; labels may repeat.  A score is an optional real: \<open>None\<close> is the
  no-value marker (NaN), both where \<^verbatim>\<open>predict_for_user\<close> returns it and where the left
  join finds no entry.
\<close>

type_synonym label = int
type_synonym user = int
type_synonym item = int
type_synonym score = "real option"

datatype 'x pairs_row =
  PairsRow (row_label: label) (row_user: user) (row_item: item) (row_rest: 'x)

datatype ui_row = UIRow (label: label) (user: user) (item: item)

type_synonym series = "(label \<times> score) list"

text \<open>
  \<^verbatim>\<open>predict_for_user\<close> is abstract: it is a parameter of the model.  It receives the
  user and the group's item column and returns a Series indexed by item id, or raises.
  Every invocation is recorded in a call log, which the model returns beside the result.
\<close>

text \<open>The optional \<^verbatim>\<open>ratings\<close> argument is a frame of (user, item, rating) rows.\<close>

type_synonym ratings = "(user \<times> item \<times> real) list"

type_synonym call = "user \<times> item list"
type_synonym pfu = "user \<Rightarrow> item list \<Rightarrow> error + (item \<times> score) list"

text \<open>What \<^verbatim>\<open>predict\<close> returns: a Series, or the DataFrame that
  \<^verbatim>\<open>groupby(...).apply\<close> builds when it does not concatenate (column labels and the
  rows' values; an empty frame for an empty input).\<close>

datatype prediction =
    Series series
  | Frame "label list" "score list list"
  | EmptyFrame

text \<open>\<^verbatim>\<open>pairs.loc[:, ['user', 'item']]\<close>: keep the index and the two columns.\<close>

definition project :: "'x pairs_row list \<Rightarrow> ui_row list" where
  "project pairs = map (\<lambda>r. UIRow (row_label r) (row_user r) (row_item r)) pairs"

text \<open>\<^verbatim>\<open>groupby('user', sort=False)\<close>: one group per distinct user, the groups in the
  order in which their users first appear, the rows of a group in input order.\<close>

fun groupby_user :: "ui_row list \<Rightarrow> (user \<times> ui_row list) list" where
  "groupby_user [] = []"
| "groupby_user (r # rs) =
     (user r, r # filter (\<lambda>x. user x = user r) rs)
       # groupby_user (filter (\<lambda>x. user x \<noteq> user r) rs)"

text \<open>\<^verbatim>\<open>Series.unique()\<close>: the distinct values in order of first appearance.\<close>

fun unique :: "'a list \<Rightarrow> 'a list" where
  "unique [] = []"
| "unique (x # xs) = x # unique (filter (\<lambda>y. y \<noteq> x) xs)"

text \<open>\<^verbatim>\<open>df.join(preds, on='item', how='left')\<close> followed by \<^verbatim>\<open>.prediction\<close>: every row
  of \<open>df\<close>, in order, once per entry of \<open>preds\<close> indexed by its item (in the order of
  \<open>preds\<close>), and once with the no-value marker when there is no such entry.  The result
  keeps the rows' index labels.\<close>

definition join_left :: "ui_row list \<Rightarrow> (item \<times> score) list \<Rightarrow> series" where
  "join_left df preds =
     concat (map (\<lambda>r.
        case filter (\<lambda>p. fst p = item r) preds of
          [] \<Rightarrow> [(label r, None)]
        | ms \<Rightarrow> map (\<lambda>p. (label r, snd p)) ms) df)"

text \<open>The inner function \<^verbatim>\<open>upred\<close>.  The tuple unpacking \<^verbatim>\<open>user, = ...\<close> raises
  \<^verbatim>\<open>ValueError\<close> unless the frame holds exactly one distinct user.\<close>

definition upred :: "pfu \<Rightarrow> ui_row list \<Rightarrow> call list \<times> (error + series)" where
  "upred predict_for_user df =
     (case unique (map user df) of
        [u] \<Rightarrow>
          (let items = map item df in
           ([(u, items)],
            case predict_for_user u items of
              Inl e \<Rightarrow> Inl e
            | Inr preds \<Rightarrow> Inr (join_left df preds)))
      | _ \<Rightarrow> ([], Inl ValueError))"

text \<open>\<^verbatim>\<open>GroupBy.apply\<close> calls the function once per group, in group order (pandas
  0.25 and later; earlier releases evaluated the first group twice); an exception
  ends the iteration and propagates.\<close>

fun apply_groups ::
  "(ui_row list \<Rightarrow> call list \<times> (error + series)) \<Rightarrow> (user \<times> ui_row list) list
     \<Rightarrow> call list \<times> (error + series list)" where
  "apply_groups f [] = ([], Inr [])"
| "apply_groups f ((k, df) # gs) =
     (case f df of
        (cs, Inl e) \<Rightarrow> (cs, Inl e)
      | (cs, Inr r) \<Rightarrow>
          (case apply_groups f gs of
             (cs', Inl e) \<Rightarrow> (cs @ cs', Inl e)
           | (cs', Inr rs) \<Rightarrow> (cs @ cs', Inr (r # rs))))"

text \<open>
  How \<^verbatim>\<open>apply\<close> combines the Series that the groups returned
  (\<^verbatim>\<open>DataFrameGroupBy._wrap_applied_output\<close> in pandas), followed by
  \<^verbatim>\<open>reset_index(level='user', drop=True)\<close>:
  \<^item> with no group at all the result is an empty DataFrame;
  \<^item> when the Series do not all carry the same index, they are concatenated under the
    group keys; dropping the \<^verbatim>\<open>user\<close> level leaves a Series indexed by the row labels;
  \<^item> when all of them carry the same index, which is always so for a single group, they
    are stacked into a DataFrame with one row per group, whose columns are that index
    (the rule by which a function that returns a Series of named statistics yields a
    table); dropping the \<^verbatim>\<open>user\<close> index leaves the rows numbered from 0.
\<close>

definition combine :: "series list \<Rightarrow> prediction" where
  "combine vals =
     (case vals of
        [] \<Rightarrow> EmptyFrame
      | v # vs \<Rightarrow>
          if list_all (\<lambda>x. map fst x = map fst v) vs
          then Frame (map fst v) (map (map snd) vals)
          else Series (concat vals))"

text \<open>\<^verbatim>\<open>res.loc[labels]\<close> with a list of labels: for each requested label, in order,
  every entry (of a DataFrame: every row) that carries it; \<^verbatim>\<open>KeyError\<close> when a label
  is not in the index (pandas 1.0 and later).\<close>

definition loc :: "prediction \<Rightarrow> label list \<Rightarrow> error + prediction" where
  "loc res labels =
     (case res of
        Series s \<Rightarrow>
          if list_all (\<lambda>l. l \<in> set (map fst s)) labels
          then Inr (Series (concat (map (\<lambda>l. filter (\<lambda>p. fst p = l) s) labels)))
          else Inl KeyError
      | Frame cols rows \<Rightarrow>
          if list_all (\<lambda>l. 0 \<le> l \<and> l < int (length rows)) labels
          then Inr (Frame cols (map (\<lambda>l. rows ! nat l) labels))
          else Inl KeyError
      | EmptyFrame \<Rightarrow> if labels = [] then Inr EmptyFrame else Inl KeyError)"

definition predict ::
  "pfu \<Rightarrow> 'x pairs_row list \<Rightarrow> ratings option \<Rightarrow> call list \<times> (error + prediction)" where
  "predict predict_for_user pairs ratings =
     (if ratings \<noteq> None then ([], Inl NotImplementedError)
      else
        (case apply_groups (upred predict_for_user) (groupby_user (project pairs)) of
           (cs, Inl e) \<Rightarrow> (cs, Inl e)
         | (cs, Inr vals) \<Rightarrow> (cs, loc (combine vals) (map row_label pairs))))"

subsection \<open>Notions used to state the properties of \<^verbatim>\<open>predict\<close>\<close>

text \<open>The rows of one user, in input order; the Series that \<^verbatim>\<open>predict_for_user\<close>
  returns for that user's group (empty if it raises); the entries that the left join
  produces for one row; the Series that \<^verbatim>\<open>upred\<close> returns for a user's group.\<close>

definition group_rows :: "ui_row list \<Rightarrow> user \<Rightarrow> ui_row list" where
  "group_rows rows u = filter (\<lambda>x. user x = u) rows"

definition user_preds :: "pfu \<Rightarrow> ui_row list \<Rightarrow> user \<Rightarrow> (item \<times> score) list" where
  "user_preds pfu rows u =
     (case pfu u (map item (group_rows rows u)) of Inr preds \<Rightarrow> preds | Inl e \<Rightarrow> [])"

definition row_entries :: "pfu \<Rightarrow> ui_row list \<Rightarrow> ui_row \<Rightarrow> series" where
  "row_entries pfu rows r = join_left [r] (user_preds pfu rows (user r))"

definition group_result :: "pfu \<Rightarrow> ui_row list \<Rightarrow> user \<Rightarrow> series" where
  "group_result pfu rows u = join_left (group_rows rows u) (user_preds pfu rows u)"

text \<open>In terms of the input frame: the items requested for a user, in input order; the
  calls of \<^verbatim>\<open>predict_for_user\<close> that the spec asks for, one per distinct user in the
  order of first appearance (\<^const>\<open>remdups\<close> keeps the last occurrence of each element,
  so the first occurrences are those of the reversed list); and the score for a row:
  what \<^verbatim>\<open>predict_for_user\<close> returned for the row's user and the items requested for
  that user, looked up at the row's item, with the no-value marker when it returned no
  entry for the item.\<close>

definition requested_items :: "'x pairs_row list \<Rightarrow> user \<Rightarrow> item list" where
  "requested_items pairs u = map row_item (filter (\<lambda>r. row_user r = u) pairs)"

definition expected_calls :: "'x pairs_row list \<Rightarrow> call list" where
  "expected_calls pairs =
     map (\<lambda>u. (u, requested_items pairs u)) (rev (remdups (rev (map row_user pairs))))"

definition score_for :: "pfu \<Rightarrow> 'x pairs_row list \<Rightarrow> 'x pairs_row \<Rightarrow> score" where
  "score_for pfu pairs r =
     (case pfu (row_user r) (requested_items pairs (row_user r)) of
        Inr preds \<Rightarrow> (case map_of preds (row_item r) of Some s \<Rightarrow> s | None \<Rightarrow> None)
      | Inl e \<Rightarrow> None)"

section \<open>\<^verbatim>\<open>Recommender.adapt\<close> (lines 167 to 173)\<close>

text \<open>
  Reference equality needs object identity: objects live in a heap, a list indexed by
  reference, and constructing an object appends it, so that the new reference differs
  from every existing one.  An object records the capabilities its class derives from
  and, for a wrapper, the reference it wraps.
\<close>

datatype capability = Is_Predictor | Is_Recommender

record pyobject =
  capabilities :: "capability list"
  wrapped :: "nat option"

type_synonym heap = "pyobject list"

definition isinstance :: "heap \<Rightarrow> nat \<Rightarrow> capability \<Rightarrow> bool" where
  "isinstance h r c = (r < length h \<and> c \<in> set (capabilities (h ! r)))"

text \<open>
  Modelled from the spec: the class \<^verbatim>\<open>TopN\<close> of \<^verbatim>\<open>lenskit/algorithms/basic.py\<close> is
  not among the source files.  The spec says of it that it accepts a Predictor-capable
  algorithm in its constructor, does not check it, and itself implements the
  Recommender capability by ranking that algorithm's scores.
\<close>

definition TopN :: "heap \<Rightarrow> nat \<Rightarrow> nat \<times> heap" where
  "TopN h algo =
     (length h, h @ [\<lparr>capabilities = [Is_Recommender, Is_Predictor], wrapped = Some algo\<rparr>])"

definition adapt :: "heap \<Rightarrow> nat \<Rightarrow> nat \<times> heap" where
  "adapt h algo = (if isinstance h algo Is_Recommender then (algo, h) else TopN h algo)"

section \<open>Example inputs\<close>

text \<open>A \<^verbatim>\<open>predict_for_user\<close> that knows two users and raises \<^verbatim>\<open>KeyError\<close> for any
  other request, and a pairs frame with the default index.\<close>

definition pfu_example :: pfu where
  "pfu_example u its =
     (if u = 1 \<and> its = [10, 20] then Inr [(10, Some 3.5), (20, None)]
      else if u = 2 \<and> its = [10] then Inr [(10, Some 4)]
      else Inl KeyError)"

definition pairs_example :: "unit pairs_row list" where
  "pairs_example = [PairsRow 0 1 10 (), PairsRow 1 1 20 (), PairsRow 2 2 10 ()]"

text \<open>A \<^verbatim>\<open>predict_for_user\<close> that honours its contract on every request (one entry per
  requested item, no item twice), and a frame with interleaved users, a repeated pair
  and labels that are not the positions.\<close>

definition pfu_table :: pfu where
  "pfu_table u its = Inr (map (\<lambda>i. (i, Some (of_int (100 * u + i)))) (remdups its))"

definition pairs_interleaved :: "unit pairs_row list" where
  "pairs_interleaved =
     [PairsRow 5 1 10 (), PairsRow 3 2 10 (), PairsRow 9 1 20 (), PairsRow 4 1 10 ()]"

text \<open>The same rows under an index that repeats a label, a frame of a single user, and
  a \<^verbatim>\<open>predict_for_user\<close> that can score item 10 only.\<close>

definition pairs_repeated_label :: "unit pairs_row list" where
  "pairs_repeated_label = [PairsRow 0 1 10 (), PairsRow 0 1 20 (), PairsRow 1 2 10 ()]"

definition pairs_single_user :: "unit pairs_row list" where
  "pairs_single_user = [PairsRow 0 1 10 (), PairsRow 1 1 20 ()]"

definition pfu_partial :: pfu where
  "pfu_partial u its = Inr [(10, Some 3.5)]"

definition recommender_obj :: pyobject where
  "recommender_obj = \<lparr>capabilities = [Is_Recommender], wrapped = None\<rparr>"

definition predictor_obj :: pyobject where
  "predictor_obj = \<lparr>capabilities = [Is_Predictor], wrapped = None\<rparr>"

text \<open>An unfit instance holding a temporary attribute, and a file system with one pickled,
  fit instance of the same class.\<close>

definition fresh_algo :: pyval where
  "fresh_algo = Algo (Some [''a'']) [] [(''fit'', Plain 0)] [(''a'', Plain 1), (''tmp'', Plain 9)]"

definition fs_example :: filesystem where
  "fs_example path =
     (if path = ''model.pkl''
      then Some (Algo (Some [''a'']) [] [(''fit'', Plain 0)] [(''a'', Plain 5), (''w'', Plain 7)])
      else None)"

text \<open>An instance of a class whose constructor declares \<open>a\<close>, \<open>p\<close>, \<open>b\<close> and \<open>z\<close>:
  \<open>a\<close> is a class variable, \<open>p\<close> a property that raises \<^verbatim>\<open>AttributeError\<close>, \<open>b\<close> an
  instance attribute holding a sub-algorithm with the parameter \<open>c\<close>, and \<open>z\<close> is not
  stored at all; and the parameters that \<^verbatim>\<open>get_params(deep=True)\<close> returns for it.\<close>

definition names_example :: "string list" where
  "names_example = [''a'', ''p'', ''b'', ''z'']"

definition props_example :: "(string \<times> (error + pyval)) list" where
  "props_example = [(''p'', Inl AttributeError)]"

definition cvals_example :: pydict where
  "cvals_example = [(''a'', Plain 7), (''fit'', Plain 0)]"

definition dict_example :: pydict where
  "dict_example = [(''b'', Algo (Some [''c'']) [] [] [(''c'', Plain 2)]), (''fitted'', Plain 1)]"

definition params_example :: pydict where
  "params_example =
     [(''a'', Plain 7), (''b'', Algo (Some [''c'']) [] [] [(''c'', Plain 2)]), (''b__c'', Plain 2)]"

section \<open>Properties of \<^verbatim>\<open>predict\<close>\<close>

subsection \<open>Where an exception of \<^verbatim>\<open>predict\<close> can come from\<close>

lemma upred_error:
  "upred pfu df = (cs, Inl e) \<Longrightarrow> e = ValueError \<or> (\<exists>u its. pfu u its = Inl e)"
  by (auto simp add: upred_def Let_def split: list.splits sum.splits)

lemma apply_groups_error:
  "apply_groups (upred pfu) gs = (cs, Inl e) \<Longrightarrow>
     e = ValueError \<or> (\<exists>u its. pfu u its = Inl e)"
proof (induction gs arbitrary: cs)
  case Nil
  then show ?case by simp
next
  case (Cons g gs)
  obtain k df where g: "g = (k, df)" by (cases g)
  obtain c1 r1 where f: "upred pfu df = (c1, r1)" by (cases "upred pfu df")
  obtain c2 r2 where a: "apply_groups (upred pfu) gs = (c2, r2)"
    by (cases "apply_groups (upred pfu) gs")
  show ?case
  proof (cases r1)
    case (Inl e1)
    with Cons.prems g f have "e1 = e" by simp
    with Inl f upred_error show ?thesis by blast
  next
    case (Inr v)
    with Cons.prems g f a obtain "r2 = Inl e"
      by (cases r2) simp_all
    with a Cons.IH show ?thesis by blast
  qed
qed

lemma loc_error: "loc res labels = Inl e \<Longrightarrow> e = KeyError"
  by (auto simp add: loc_def split: prediction.splits if_splits)

text \<open>
  Claim C3.  Whatever the pairs, a call of the default \<^verbatim>\<open>predict\<close> with a ratings
  override (any value other than \<^verbatim>\<open>None\<close>) raises \<^verbatim>\<open>NotImplementedError\<close> with an
  empty call log, that is, before \<^verbatim>\<open>predict_for_user\<close> is invoked for any user.  With
  \<^verbatim>\<open>ratings=None\<close> the method itself never raises that error: it can only surface
  when \<^verbatim>\<open>predict_for_user\<close> raises it.
\<close>

theorem predict_ratings_override:
  "predict pfu pairs (Some r) = ([], Inl NotImplementedError) \<and>
   ((\<forall>u its. pfu u its \<noteq> Inl NotImplementedError) \<longrightarrow>
      snd (predict pfu pairs None) \<noteq> Inl NotImplementedError)"
proof (intro conjI impI)
  show "predict pfu pairs (Some r) = ([], Inl NotImplementedError)"
    by (simp add: predict_def)
next
  assume ok: "\<forall>u its. pfu u its \<noteq> Inl NotImplementedError"
  obtain cs res where a: "apply_groups (upred pfu) (groupby_user (project pairs)) = (cs, res)"
    by (cases "apply_groups (upred pfu) (groupby_user (project pairs))")
  show "snd (predict pfu pairs None) \<noteq> Inl NotImplementedError"
  proof (cases res)
    case (Inl e)
    with a apply_groups_error have "e = ValueError \<or> (\<exists>u its. pfu u its = Inl e)" by blast
    with ok have "e \<noteq> NotImplementedError" by auto
    with a Inl show ?thesis by (simp add: predict_def)
  next
    case (Inr vals)
    with a have "snd (predict pfu pairs None)
        = loc (combine vals) (map row_label pairs)"
      by (simp add: predict_def)
    moreover have "loc (combine vals) (map row_label pairs) \<noteq> Inl NotImplementedError"
      using loc_error [of "combine vals" "map row_label pairs" NotImplementedError] by auto
    ultimately show ?thesis by simp
  qed
qed

theorem predict_ratings_override_witness:
  "(\<forall>u its. pfu_example u its \<noteq> Inl NotImplementedError) \<and>
   predict pfu_example pairs_example (Some [(1, 10, 4)]) = ([], Inl NotImplementedError) \<and>
   snd (predict pfu_example pairs_example None) \<noteq> Inl NotImplementedError"
proof -
  have h: "\<forall>u its. pfu_example u its \<noteq> Inl NotImplementedError"
    by (simp add: pfu_example_def)
  with predict_ratings_override [of pfu_example pairs_example "[(1, 10, 4)]"] show ?thesis
    by blast
qed

text \<open>
  Claim C8.  Users \<open>[1, 1, 2]\<close> and items \<open>[10, 20, 10]\<close>, with
  \<^verbatim>\<open>predict_for_user\<close> returning \<open>{10: 3.5, 20: no value}\<close> for user 1 on items
  \<open>[10, 20]\<close> and \<open>{10: 4.0}\<close> for user 2 on items \<open>[10]\<close>: the default \<^verbatim>\<open>predict\<close>
  calls \<^verbatim>\<open>predict_for_user\<close> for user 1 and then for user 2 and returns the Series
  \<open>[3.5, no value, 4.0]\<close> under the input's row labels, in input order.  The row
  labels may be any three distinct labels, the other columns anything.
\<close>

theorem predict_concrete_scenario:
  assumes "pfu 1 [10, 20] = Inr [(10, Some 3.5), (20, None)]"
    and "pfu 2 [10] = Inr [(10, Some 4)]"
    and "distinct [l0, l1, l2]"
  shows "predict pfu [PairsRow l0 1 10 x0, PairsRow l1 1 20 x1, PairsRow l2 2 10 x2] None =
     ([(1, [10, 20]), (2, [10])], Inr (Series [(l0, Some 3.5), (l1, None), (l2, Some 4)]))"
  using assms
  by (auto simp add: predict_def project_def upred_def join_left_def combine_def loc_def)

theorem predict_concrete_scenario_witness:
  "predict pfu_example pairs_example None =
     ([(1, [10, 20]), (2, [10])], Inr (Series [(0, Some 3.5), (1, None), (2, Some 4)]))"
  using predict_concrete_scenario [of pfu_example 0 1 2 "()" "()" "()"]
  by (simp add: pfu_example_def pairs_example_def)

subsection \<open>Only the index and the two projected columns are read\<close>

lemma project_columns:
  "project pairs =
     map (\<lambda>(l, u, i). UIRow l u i)
       (zip (map row_label pairs) (zip (map row_user pairs) (map row_item pairs)))"
  by (induction pairs) (simp_all add: project_def)

text \<open>
  Claim C9.  Two pairs frames with the same index, the same \<^verbatim>\<open>user\<close> column and the
  same \<^verbatim>\<open>item\<close> column, in the same row order, get the same result from \<^verbatim>\<open>predict\<close>
  (the same calls of \<^verbatim>\<open>predict_for_user\<close>, and the same scores or the same error),
  whatever their other columns hold, even columns of different types.
\<close>

theorem predict_only_user_item:
  assumes "map row_label p1 = map row_label p2"
    and "map row_user p1 = map row_user p2"
    and "map row_item p1 = map row_item p2"
  shows "predict pfu p1 ratings = predict pfu p2 ratings"
proof -
  have "project p1 = project p2"
    using assms by (simp add: project_columns)
  then show ?thesis
    using assms(1) by (simp add: predict_def)
qed

theorem predict_only_user_item_witness:
  "predict pfu_example pairs_example None =
   predict pfu_example
     [PairsRow 0 1 10 (''x'', True), PairsRow 1 1 20 (''y'', False), PairsRow 2 2 10 (''z'', True)]
     None"
  using predict_only_user_item [of pairs_example
      "[PairsRow 0 1 10 (''x'', True), PairsRow 1 1 20 (''y'', False), PairsRow 2 2 10 (''z'', True)]"
      pfu_example None]
  by (simp add: pairs_example_def)

section \<open>Properties of \<^verbatim>\<open>adapt\<close>\<close>

text \<open>
  Claim C7.  Applying \<^verbatim>\<open>Recommender.adapt\<close> to the object that \<^verbatim>\<open>adapt\<close> returned, in
  the heap it left, returns the same reference and leaves the heap as it is.  For an
  object that is an instance of \<^verbatim>\<open>Recommender\<close>, \<^verbatim>\<open>adapt\<close> returns the reference it
  was given and allocates nothing.  For any other object it returns \<^verbatim>\<open>TopN(algo)\<close>: a
  reference that did not exist before, to an object that wraps the argument and is a
  Recommender, and the objects that already existed are unchanged.
\<close>

theorem adapt_idempotent:
  "adapt (snd (adapt h x)) (fst (adapt h x)) = adapt h x \<and>
   (isinstance h x Is_Recommender \<longrightarrow> adapt h x = (x, h)) \<and>
   (\<not> isinstance h x Is_Recommender \<longrightarrow>
      adapt h x = TopN h x \<and> fst (adapt h x) = length h \<and>
      take (length h) (snd (adapt h x)) = h \<and>
      wrapped (snd (adapt h x) ! fst (adapt h x)) = Some x \<and>
      isinstance (snd (adapt h x)) (fst (adapt h x)) Is_Recommender)"
  by (simp add: adapt_def TopN_def isinstance_def)

theorem adapt_idempotent_witness:
  "isinstance [recommender_obj] 0 Is_Recommender \<and>
   adapt [recommender_obj] 0 = (0, [recommender_obj]) \<and>
   \<not> isinstance [predictor_obj] 0 Is_Recommender \<and>
   fst (adapt [predictor_obj] 0) = length [predictor_obj] \<and>
   adapt (snd (adapt [predictor_obj] 0)) (fst (adapt [predictor_obj] 0)) = adapt [predictor_obj] 0"
proof -
  have r: "isinstance [recommender_obj] 0 Is_Recommender"
    by (simp add: isinstance_def recommender_obj_def)
  have p: "\<not> isinstance [predictor_obj] 0 Is_Recommender"
    by (simp add: isinstance_def predictor_obj_def)
  from r adapt_idempotent [of "[recommender_obj]" 0]
  have "adapt [recommender_obj] 0 = (0, [recommender_obj])" by blast
  moreover from p adapt_idempotent [of "[predictor_obj]" 0]
  have "fst (adapt [predictor_obj] 0) = length [predictor_obj] \<and>
    adapt (snd (adapt [predictor_obj] 0)) (fst (adapt [predictor_obj] 0)) = adapt [predictor_obj] 0"
    by blast
  ultimately show ?thesis using r p by blast
qed

section \<open>Properties of \<^verbatim>\<open>get_params\<close>\<close>

lemma keys_setitem: "fst ` set (setitem k v d) = insert k (fst ` set d)"
  by (simp add: setitem_def dom_update)

lemma map_of_setitem: "map_of (setitem k v d) = (map_of d)(k \<mapsto> v)"
  by (simp add: setitem_def update_conv')

lemma keys_fold_setitem:
  "fst ` set (fold (\<lambda>(k, sv). setitem (f k) sv) sps acc) = fst ` set acc \<union> f ` fst ` set sps"
proof (induction sps arbitrary: acc)
  case Nil
  then show ?case by simp
next
  case (Cons p sps)
  then show ?case by (cases p) (simp add: keys_setitem)
qed

lemma hasattr_True: "hasattr props cvals d n = Inr True \<longleftrightarrow> (\<exists>v. getattr props cvals d n = Inr v)"
  by (auto simp add: hasattr_def split: sum.splits if_splits)

lemma hasattr_False:
  "hasattr props cvals d n = Inr False \<longleftrightarrow> getattr props cvals d n = Inl AttributeError"
  by (auto simp add: hasattr_def split: sum.splits if_splits)

text \<open>The method does raise where a statement of it raises: a property of a declared
  parameter that raises anything but \<^verbatim>\<open>AttributeError\<close>, a class without an
  inspectable signature, a nested value whose own \<^verbatim>\<open>get_params\<close> raises.\<close>

lemma get_params_raises:
  "get_params (Algo (Some [''a'']) [(''a'', Inl KeyError)] [] []) deep = Inl KeyError \<and>
   get_params (Algo None [] [] [(''a'', Plain 1)]) deep = Inl ValueError \<and>
   get_params (Algo (Some [''m'']) [] [] [(''m'', Foreign (Inl ValueError) [])]) True
     = Inl ValueError"
  by (simp add: hasattr_def getattr_def)

lemma keys_loop:
  "get_params_loop deep props cvals d names params = Inr res \<Longrightarrow>
     fst ` set res =
       fst ` set params \<union> set (filter (\<lambda>n. hasattr props cvals d n = Inr True) names)
       \<union> (\<Union>n \<in> set names. (\<lambda>k. n @ ''__'' @ k) ` fst ` set (sub_params deep props cvals d n))"
proof (induction names arbitrary: params)
  case Nil
  then show ?case by auto
next
  case (Cons n names)
  show ?case
  proof (cases "hasattr props cvals d n")
    case (Inl e)
    with Cons.prems show ?thesis by simp
  next
    case (Inr b)
    show ?thesis
    proof (cases b)
      case False
      with Inr have h: "hasattr props cvals d n = Inr False" by simp
      then have "getattr props cvals d n = Inl AttributeError" by (simp add: hasattr_False)
      then have s: "sub_params deep props cvals d n = []" by (simp add: sub_params_def)
      from h Cons.prems have "get_params_loop deep props cvals d names params = Inr res" by simp
      from Cons.IH [OF this] h s show ?thesis by simp
    next
      case True
      with Inr have h: "hasattr props cvals d n = Inr True" by simp
      then obtain v where v: "getattr props cvals d n = Inr v" by (auto simp add: hasattr_True)
      show ?thesis
      proof (cases "deep \<and> has_get_params v")
        case False
        with v have s: "sub_params deep props cvals d n = []" by (auto simp add: sub_params_def)
        from h v False Cons.prems
        have "get_params_loop deep props cvals d names (setitem n v params) = Inr res"
          by (auto simp add: Let_def split: if_splits)
        from Cons.IH [OF this] h s show ?thesis by (simp add: keys_setitem Un_ac)
      next
        case deepv: True
        show ?thesis
        proof (cases "get_params v deep")
          case (Inl e)
          with h v deepv Cons.prems show ?thesis by (simp add: Let_def)
        next
          case (Inr sps)
          with v deepv have s: "sub_params deep props cvals d n = sps"
            by (simp add: sub_params_def)
          from h v deepv Inr Cons.prems
          have "get_params_loop deep props cvals d names
              (fold (\<lambda>(k, sv). setitem (n @ ''__'' @ k) sv) sps (setitem n v params)) = Inr res"
            by (simp add: Let_def)
          from Cons.IH [OF this] h s show ?thesis
            by (simp add: keys_fold_setitem keys_setitem Un_ac)
        qed
      qed
    qed
  qed
qed

text \<open>
  Claim C5, as amended.  For every algorithm instance, whenever \<^verbatim>\<open>get_params\<close> returns
  a mapping, its keys are exactly the constructor-parameter names that the instance
  exposes as attributes of that exact name (\<^verbatim>\<open>hasattr\<close> is true: an instance
  attribute, a class attribute, a method or a property that returns), together with,
  when \<open>deep\<close> is set, the flattened keys \<open>name__k\<close> for every such name whose value
  has parameters of its own with key \<open>k\<close>.  So with \<^verbatim>\<open>deep=False\<close> a
  constructor-parameter name is a key only if the instance exposes an attribute of that
  name, and with \<^verbatim>\<open>deep=True\<close> a parameter name that the instance does not expose is a
  key only when it coincides with a flattened key.  For an algorithm whose constructor
  declares no parameters \<^verbatim>\<open>get_params\<close> does not raise and returns the empty mapping,
  whatever its attributes and properties do.  The method assigns to no attribute of
  \<^verbatim>\<open>self\<close>: the model is a function of the instance and returns no new instance.
\<close>

theorem get_params_keys:
  "(get_params (Algo (Some names) props cvals d) deep = Inr res \<longrightarrow>
      fst ` set res =
        set (filter (\<lambda>n. hasattr props cvals d n = Inr True) names) \<union>
        (\<Union>n \<in> set names. (\<lambda>k. n @ ''__'' @ k) ` fst ` set (sub_params deep props cvals d n))) \<and>
   (get_params (Algo (Some names) props cvals d) False = Inr res' \<longrightarrow>
      fst ` set res' = set (filter (\<lambda>n. hasattr props cvals d n = Inr True) names)) \<and>
   get_params (Algo (Some []) props cvals d) deep = Inr []"
proof -
  have "sub_params False props cvals d = (\<lambda>n. [])"
    by (intro ext) (simp add: sub_params_def split: sum.splits)
  then show ?thesis
    using keys_loop [of deep props cvals d names "[]" res]
      keys_loop [of False props cvals d names "[]" res']
    by simp
qed

theorem get_params_keys_witness:
  "get_params (Algo (Some names_example) props_example cvals_example dict_example) True
     = Inr params_example \<and>
   fst ` set params_example =
     set (filter (\<lambda>n. hasattr props_example cvals_example dict_example n = Inr True) names_example) \<union>
     (\<Union>n \<in> set names_example.
        (\<lambda>k. n @ ''__'' @ k) ` fst ` set (sub_params True props_example cvals_example dict_example n))"
proof -
  have t: "get_params (Algo (Some names_example) props_example cvals_example dict_example) True
     = Inr params_example"
    by (simp add: names_example_def props_example_def cvals_example_def dict_example_def
        params_example_def hasattr_def getattr_def setitem_def)
  have "get_params (Algo (Some names_example) props_example cvals_example dict_example) True
      = Inr params_example \<longrightarrow>
    fst ` set params_example =
     set (filter (\<lambda>n. hasattr props_example cvals_example dict_example n = Inr True) names_example) \<union>
     (\<Union>n \<in> set names_example.
        (\<lambda>k. n @ ''__'' @ k) ` fst ` set (sub_params True props_example cvals_example dict_example n))"
    using get_params_keys [of names_example props_example cvals_example dict_example True
        params_example] by (rule conjunct1)
  then have "fst ` set params_example =
     set (filter (\<lambda>n. hasattr props_example cvals_example dict_example n = Inr True) names_example) \<union>
     (\<Union>n \<in> set names_example.
        (\<lambda>k. n @ ''__'' @ k) ` fst ` set (sub_params True props_example cvals_example dict_example n))"
    using t by (rule mp)
  with t show ?thesis by (rule conjI)
qed

text \<open>
  Claim C5 as stated fails: a class whose constructor declares the parameters \<open>b\<close> and
  \<open>b__c\<close> and stores only \<open>b\<close>, a sub-algorithm with the parameter \<open>c\<close>.  The key
  \<open>b__c\<close> is in the result of \<^verbatim>\<open>get_params(deep=True)\<close>, it is a constructor-parameter
  name, and \<^verbatim>\<open>hasattr\<close> is false for it: the instance has no attribute of that name.
\<close>

theorem get_params_key_collision:
  "get_params (Algo (Some [''b'', ''b__c'']) [] []
       [(''b'', Algo (Some [''c'']) [] [] [(''c'', Plain 2)])]) True =
     Inr [(''b'', Algo (Some [''c'']) [] [] [(''c'', Plain 2)]), (''b__c'', Plain 2)] \<and>
   ''b__c'' \<in> set [''b'', ''b__c''] \<and>
   hasattr [] [] [(''b'', Algo (Some [''c'']) [] [] [(''c'', Plain 2)])] ''b__c'' = Inr False"
  by (simp add: hasattr_def getattr_def setitem_def)

text \<open>
  Claim C6.  An algorithm whose constructor declares \<open>a\<close> and \<open>b\<close>, with a plain value
  in \<open>a\<close> and in \<open>b\<close> a sub-algorithm whose constructor declares \<open>c\<close>, itself a plain
  value: \<^verbatim>\<open>get_params(deep=True)\<close> is the mapping with exactly the keys \<open>a\<close>, \<open>b\<close> and
  \<open>b__c\<close>, each bound to the attribute's value, and \<^verbatim>\<open>get_params(deep=False)\<close> the
  mapping with exactly \<open>a\<close> and \<open>b\<close>.  The attributes are read with \<^verbatim>\<open>getattr\<close>, so
  they may be instance attributes (then \<^const>\<open>getattr\<close> is the lookup in the instance
  dictionary, provided no property shadows the name) or come from the class, and the
  instances may hold any other attributes.
\<close>

theorem get_params_nested:
  assumes "getattr props cvals d ''a'' = Inr (Plain x)"
    and "getattr props cvals d ''b'' = Inr (Algo (Some [''c'']) bprops bcvals bd)"
    and "getattr bprops bcvals bd ''c'' = Inr (Plain y)"
  shows "get_params (Algo (Some [''a'', ''b'']) props cvals d) True =
      Inr [(''a'', Plain x), (''b'', Algo (Some [''c'']) bprops bcvals bd), (''b__c'', Plain y)] \<and>
    get_params (Algo (Some [''a'', ''b'']) props cvals d) False =
      Inr [(''a'', Plain x), (''b'', Algo (Some [''c'']) bprops bcvals bd)]"
  using assms by (simp add: hasattr_def setitem_def)

theorem get_params_nested_witness:
  "get_params
     (Algo (Some [''a'', ''b'']) [] [(''fit'', Plain 0)]
        [(''fitted'', Plain 0), (''a'', Plain 3),
         (''b'', Algo (Some [''c'']) [] [(''fit'', Plain 0)] [(''c'', Plain 4)])]) True =
     Inr [(''a'', Plain 3), (''b'', Algo (Some [''c'']) [] [(''fit'', Plain 0)] [(''c'', Plain 4)]),
          (''b__c'', Plain 4)] \<and>
   get_params
     (Algo (Some [''a'', ''b'']) [] [(''fit'', Plain 0)]
        [(''fitted'', Plain 0), (''a'', Plain 3),
         (''b'', Algo (Some [''c'']) [] [(''fit'', Plain 0)] [(''c'', Plain 4)])]) False =
     Inr [(''a'', Plain 3), (''b'', Algo (Some [''c'']) [] [(''fit'', Plain 0)] [(''c'', Plain 4)])]"
proof -
  let ?d = "[(''fitted'', Plain 0), (''a'', Plain 3),
         (''b'', Algo (Some [''c'']) [] [(''fit'', Plain 0)] [(''c'', Plain 4)])]"
  have a: "getattr [] [(''fit'', Plain 0)] ?d ''a'' = Inr (Plain 3)"
    by (simp add: getattr_def)
  have b: "getattr [] [(''fit'', Plain 0)] ?d ''b''
      = Inr (Algo (Some [''c'']) [] [(''fit'', Plain 0)] [(''c'', Plain 4)])"
    by (simp add: getattr_def)
  have c: "getattr [] [(''fit'', Plain 0)] [(''c'', Plain 4)] ''c'' = Inr (Plain 4)"
    by (simp add: getattr_def)
  from a b c show ?thesis by (rule get_params_nested)
qed

section \<open>Properties of \<^verbatim>\<open>load\<close>\<close>

lemma map_of_dict_update:
  "distinct (map fst other) \<Longrightarrow> map_of (dict_update d other) = map_of d ++ map_of other"
proof (induction other arbitrary: d)
  case Nil
  then show ?case by (simp add: dict_update_def)
next
  case (Cons kv other)
  obtain k v where kv: "kv = (k, v)" by (cases kv)
  from Cons.prems kv have notin: "k \<notin> fst ` set other" and d: "distinct (map fst other)"
    by auto
  have "map_of (dict_update d (kv # other)) = map_of (dict_update (setitem k v d) other)"
    by (simp add: dict_update_def kv)
  also have "\<dots> = map_of (setitem k v d) ++ map_of other"
    using Cons.IH [OF d] .
  also have "\<dots> = map_of d ++ map_of (kv # other)"
  proof
    fix x
    show "(map_of (setitem k v d) ++ map_of other) x = (map_of d ++ map_of (kv # other)) x"
    proof (cases "map_of other x")
      case None
      then show ?thesis by (simp add: map_of_setitem map_add_def kv)
    next
      case (Some y)
      then have "x \<in> fst ` set other" by (metis map_of_eq_None_iff option.distinct(1))
      with notin have "x \<noteq> k" by auto
      with Some show ?thesis by (simp add: map_add_def kv)
    qed
  qed
  finally show ?case .
qed

lemma keys_dict_update:
  "fst ` set (dict_update d other) = fst ` set d \<union> fst ` set other"
proof (induction other arbitrary: d)
  case Nil
  then show ?case by (simp add: dict_update_def)
next
  case (Cons kv other)
  have "dict_update d (kv # other) = dict_update (setitem (fst kv) (snd kv) d) other"
    by (simp add: dict_update_def case_prod_beta)
  with Cons.IH [of "setitem (fst kv) (snd kv) d"] show ?case
    by (simp add: keys_setitem)
qed

text \<open>
  Claim C10.  When the file holds a pickled object with an instance dictionary,
  \<^verbatim>\<open>load\<close> succeeds and the instance dictionary of \<^verbatim>\<open>self\<close> becomes the old one
  updated with the loaded one: every field of the loaded state has the loaded value,
  every field that the loaded state does not have keeps the value it had, and every
  field name that \<^verbatim>\<open>self\<close> had is still there.  The keys of the loaded dictionary are
  distinct, as those of a Python dict are.
\<close>

theorem load_merges:
  assumes "fs file = Some (Algo sig' props' cvals' d')"
    and "distinct (map fst d')"
  shows "load fs (Algo sig props cvals d) file = Inr (Algo sig props cvals (dict_update d d')) \<and>
    map_of (dict_update d d') = map_of d ++ map_of d' \<and>
    (\<forall>k v. map_of d' k = Some v \<longrightarrow> map_of (dict_update d d') k = Some v) \<and>
    (\<forall>k. k \<notin> fst ` set d' \<longrightarrow> map_of (dict_update d d') k = map_of d k) \<and>
    fst ` set d \<subseteq> fst ` set (dict_update d d')"
proof -
  have m: "map_of (dict_update d d') = map_of d ++ map_of d'"
    using assms(2) by (rule map_of_dict_update)
  have "\<forall>k. k \<notin> fst ` set d' \<longrightarrow> map_of (dict_update d d') k = map_of d k"
    by (simp add: m map_add_def map_of_eq_None_iff [THEN iffD2])
  moreover have "\<forall>k v. map_of d' k = Some v \<longrightarrow> map_of (dict_update d d') k = Some v"
    by (simp add: m)
  moreover have "load fs (Algo sig props cvals d) file
      = Inr (Algo sig props cvals (dict_update d d'))"
    using assms(1) by (simp add: load_def)
  ultimately show ?thesis
    using m by (simp add: keys_dict_update)
qed

theorem load_merges_witness:
  "fs_example ''model.pkl'' =
     Some (Algo (Some [''a'']) [] [(''fit'', Plain 0)] [(''a'', Plain 5), (''w'', Plain 7)]) \<and>
   distinct (map fst [(''a'', Plain 5), (''w'', Plain 7)]) \<and>
   load fs_example fresh_algo ''model.pkl'' =
     Inr (Algo (Some [''a'']) [] [(''fit'', Plain 0)]
            [(''a'', Plain 5), (''tmp'', Plain 9), (''w'', Plain 7)])"
proof -
  have f: "fs_example ''model.pkl'' =
     Some (Algo (Some [''a'']) [] [(''fit'', Plain 0)] [(''a'', Plain 5), (''w'', Plain 7)])"
    by (simp add: fs_example_def)
  have d: "distinct (map fst [(''a'', Plain 5), (''w'', Plain 7)])"
    by simp
  from f d load_merges [of fs_example "''model.pkl''" "Some [''a'']" "[]" "[(''fit'', Plain 0)]"
      "[(''a'', Plain 5), (''w'', Plain 7)]" "Some [''a'']" "[]" "[(''fit'', Plain 0)]"
      "[(''a'', Plain 1), (''tmp'', Plain 9)]"]
  show ?thesis
    by (simp add: fresh_algo_def dict_update_def setitem_def)
qed

section \<open>Grouping, call order and alignment of \<^verbatim>\<open>predict\<close>\<close>

subsection \<open>First-appearance order and the groups\<close>

lemma remdups_snoc: "remdups (ys @ [x]) = filter (\<lambda>y. y \<noteq> x) (remdups ys) @ [x]"
  by (induction ys) auto

lemma unique_remdups: "unique xs = rev (remdups (rev xs))"
proof (induction xs rule: unique.induct)
  case 1
  then show ?case by simp
next
  case (2 x xs)
  have "rev (remdups (rev (x # xs))) = x # filter (\<lambda>y. y \<noteq> x) (rev (remdups (rev xs)))"
    by (simp add: remdups_snoc rev_filter)
  also have "filter (\<lambda>y. y \<noteq> x) (rev (remdups (rev xs)))
      = rev (remdups (rev (filter (\<lambda>y. y \<noteq> x) xs)))"
    by (simp add: rev_filter remdups_filter)
  finally show ?case using 2 by simp
qed

lemma set_unique [simp]: "set (unique xs) = set xs"
  by (simp add: unique_remdups)

lemma distinct_unique [simp]: "distinct (unique xs)"
  by (simp add: unique_remdups)

lemma unique_single:
  assumes "xs \<noteq> []" and "\<forall>x \<in> set xs. x = u"
  shows "unique xs = [u]"
proof -
  from assms obtain xs' where xs: "xs = u # xs'" by (cases xs) auto
  with assms(2) have "filter (\<lambda>y. y \<noteq> u) xs' = []" by (auto simp add: filter_empty_conv)
  with xs show ?thesis by simp
qed

lemma groupby_closed:
  "groupby_user rows =
     map (\<lambda>u. (u, filter (\<lambda>x. user x = u) rows)) (unique (map user rows))"
proof (induction rows rule: groupby_user.induct)
  case 1
  then show ?case by simp
next
  case (2 r rs)
  let ?rest = "filter (\<lambda>x. user x \<noteq> user r) rs"
  have users: "map user ?rest = filter (\<lambda>y. y \<noteq> user r) (map user rs)"
    by (simp add: filter_map comp_def)
  have "map (\<lambda>u. (u, filter (\<lambda>x. user x = u) ?rest)) (unique (map user ?rest))
      = map (\<lambda>u. (u, filter (\<lambda>x. user x = u) (r # rs))) (unique (map user ?rest))"
  proof (rule map_cong [OF refl])
    fix u assume "u \<in> set (unique (map user ?rest))"
    then have ne: "u \<noteq> user r" by auto
    have "filter (\<lambda>x. user x = u) ?rest = filter (\<lambda>x. user x = u) rs"
      using ne by (auto intro: filter_cong)
    with ne show "(u, filter (\<lambda>x. user x = u) ?rest) = (u, filter (\<lambda>x. user x = u) (r # rs))"
      by auto
  qed
  with 2 users show ?case by simp
qed

lemma mset_groupby: "mset (concat (map snd (groupby_user rows))) = mset rows"
proof (induction rows rule: groupby_user.induct)
  case 1
  then show ?case by simp
next
  case (2 r rs)
  have "mset (filter (\<lambda>x. user x = user r) rs) + mset (filter (\<lambda>x. user x \<noteq> user r) rs) = mset rs"
    by (induction rs) auto
  with 2 show ?case by (simp add: ac_simps)
qed

subsection \<open>One group, the iteration over the groups, the join\<close>

lemma upred_group:
  assumes "u \<in> user ` set rows"
  shows "upred pfu (group_rows rows u) =
    ([(u, map item (group_rows rows u))],
     case pfu u (map item (group_rows rows u)) of
       Inl e \<Rightarrow> Inl e
     | Inr preds \<Rightarrow> Inr (join_left (group_rows rows u) preds))"
proof -
  from assms have "map user (group_rows rows u) \<noteq> []"
    by (auto simp add: group_rows_def filter_empty_conv)
  moreover have "\<forall>x \<in> set (map user (group_rows rows u)). x = u"
    by (auto simp add: group_rows_def)
  ultimately have "unique (map user (group_rows rows u)) = [u]"
    by (rule unique_single)
  then show ?thesis by (simp add: upred_def Let_def)
qed

lemma apply_groups_prefix:
  assumes "\<forall>u \<in> set us. \<exists>r. f (g u) = ([c u], r)"
  shows "prefix (fst (apply_groups f (map (\<lambda>u. (u, g u)) us))) (map c us)"
  using assms
proof (induction us)
  case Nil
  then show ?case by simp
next
  case (Cons u us)
  then obtain r where r: "f (g u) = ([c u], r)" by auto
  from Cons have ih: "prefix (fst (apply_groups f (map (\<lambda>u. (u, g u)) us))) (map c us)"
    by simp
  show ?case
  proof (cases r)
    case (Inl e)
    with r show ?thesis by simp
  next
    case (Inr v)
    with r ih show ?thesis
      by (cases "apply_groups f (map (\<lambda>u. (u, g u)) us)")
         (auto split: sum.splits)
  qed
qed

lemma apply_groups_all:
  assumes "\<forall>u \<in> set us. f (g u) = ([c u], Inr (v u))"
  shows "apply_groups f (map (\<lambda>u. (u, g u)) us) = (map c us, Inr (map v us))"
  using assms by (induction us) simp_all

lemma join_left_rows: "join_left df preds = concat (map (\<lambda>r. join_left [r] preds) df)"
  by (simp add: join_left_def)

lemma join_left_single_labels: "e \<in> set (join_left [r] preds) \<Longrightarrow> fst e = label r"
  by (auto simp add: join_left_def split: list.splits)

lemma join_left_single_nonempty: "join_left [r] preds \<noteq> []"
  by (simp add: join_left_def split: list.splits)

lemma labels_join_left: "set (map fst (join_left df preds)) = label ` set df"
proof -
  have one: "fst ` set (join_left [r] preds) = {label r}" for r
  proof -
    obtain e where "e \<in> set (join_left [r] preds)"
      using join_left_single_nonempty [of r preds] by (cases "join_left [r] preds") auto
    moreover from this have "fst e = label r" by (rule join_left_single_labels)
    ultimately have "label r \<in> fst ` set (join_left [r] preds)"
      by (metis image_eqI)
    moreover have "fst ` set (join_left [r] preds) \<subseteq> {label r}"
      using join_left_single_labels [of _ r preds] by blast
    ultimately show ?thesis by blast
  qed
  have "set (map fst (join_left df preds)) = (\<Union>r \<in> set df. fst ` set (join_left [r] preds))"
    by (subst join_left_rows) auto
  then show ?thesis by (auto simp add: one)
qed

lemma filter_concat_entries:
  assumes "\<And>r e. e \<in> set (E r) \<Longrightarrow> fst e = label r"
  shows "filter (\<lambda>e. fst e = l) (concat (map E xs))
    = concat (map (\<lambda>r. if label r = l then E r else []) xs)"
proof (induction xs)
  case Nil
  then show ?case by simp
next
  case (Cons x xs)
  have "filter (\<lambda>e. fst e = l) (E x) = (if label x = l then E x else [])"
  proof (cases "label x = l")
    case True
    with assms [of _ x] show ?thesis by (simp add: filter_id_conv)
  next
    case False
    with assms [of _ x] show ?thesis by (auto simp add: filter_empty_conv)
  qed
  with Cons show ?case by simp
qed

lemma pick_row:
  assumes "distinct (map label xs)" and "r \<in> set xs"
  shows "concat (map (\<lambda>r'. if label r' = label r then E r' else []) xs) = E r"
  using assms
proof (induction xs)
  case Nil
  then show ?case by simp
next
  case (Cons x xs)
  show ?case
  proof (cases "x = r")
    case True
    with Cons.prems have "label r \<notin> label ` set xs" by simp
    then have "\<forall>r' \<in> set xs. label r' \<noteq> label r" by (metis image_eqI)
    then have "concat (map (\<lambda>r'. if label r' = label r then E r' else []) xs) = []"
      by (induction xs) auto
    with True show ?thesis by simp
  next
    case False
    with Cons.prems have "r \<in> set xs" and "label x \<noteq> label r" and "distinct (map label xs)"
      by auto
    with Cons.IH show ?thesis by simp
  qed
qed

subsection \<open>The concatenated Series and the lookup by label\<close>

lemma groupby_groups:
  "groupby_user rows = map (\<lambda>u. (u, group_rows rows u)) (unique (map user rows))"
  by (simp add: groupby_closed group_rows_def)

lemma apply_groups_ok:
  assumes ok: "\<forall>u \<in> user ` set rows. \<exists>p. pfu u (map item (group_rows rows u)) = Inr p"
  shows "apply_groups (upred pfu) (groupby_user rows) =
    (map (\<lambda>u. (u, map item (group_rows rows u))) (unique (map user rows)),
     Inr (map (group_result pfu rows) (unique (map user rows))))"
proof -
  have "\<forall>u \<in> set (unique (map user rows)).
      upred pfu (group_rows rows u) =
        ([(u, map item (group_rows rows u))], Inr (group_result pfu rows u))"
  proof
    fix u assume "u \<in> set (unique (map user rows))"
    then have u: "u \<in> user ` set rows" by simp
    with ok obtain p where "pfu u (map item (group_rows rows u)) = Inr p" by blast
    with upred_group [OF u, of pfu] show "upred pfu (group_rows rows u) =
        ([(u, map item (group_rows rows u))], Inr (group_result pfu rows u))"
      by (simp add: group_result_def user_preds_def)
  qed
  then show ?thesis
    unfolding groupby_groups by (rule apply_groups_all)
qed

lemma group_result_entries:
  "group_result pfu rows u = concat (map (row_entries pfu rows) (group_rows rows u))"
proof -
  have "map (\<lambda>r. join_left [r] (user_preds pfu rows u)) (group_rows rows u)
      = map (row_entries pfu rows) (group_rows rows u)"
    by (rule map_cong) (auto simp add: row_entries_def group_rows_def)
  then have "concat (map (\<lambda>r. join_left [r] (user_preds pfu rows u)) (group_rows rows u))
      = concat (map (row_entries pfu rows) (group_rows rows u))"
    by (rule arg_cong)
  moreover have "group_result pfu rows u
      = concat (map (\<lambda>r. join_left [r] (user_preds pfu rows u)) (group_rows rows u))"
    unfolding group_result_def by (rule join_left_rows)
  ultimately show ?thesis by (rule ssubst [rotated])
qed

lemma concat_group_results:
  "concat (map (group_result pfu rows) us)
     = concat (map (row_entries pfu rows) (concat (map (group_rows rows) us)))"
  by (induction us) (simp_all add: group_result_entries)

lemma perm_groups:
  "mset (concat (map (group_rows rows) (unique (map user rows)))) = mset rows"
proof -
  have "map snd (groupby_user rows) = map (group_rows rows) (unique (map user rows))"
    by (simp add: groupby_groups comp_def)
  with mset_groupby [of rows] show ?thesis by simp
qed

lemma series_lookup:
  assumes dl: "distinct (map label rows)" and r: "r \<in> set rows"
  shows "filter (\<lambda>e. fst e = label r)
           (concat (map (group_result pfu rows) (unique (map user rows))))
         = row_entries pfu rows r"
proof -
  let ?perm = "concat (map (group_rows rows) (unique (map user rows)))"
  have m: "mset ?perm = mset rows" by (rule perm_groups)
  then have "mset (map label ?perm) = mset (map label rows)" by simp
  with dl have d: "distinct (map label ?perm)"
    by (metis mset_eq_imp_distinct_iff)
  from m r have rp: "r \<in> set ?perm" by (metis mset_eq_setD)
  have lab: "\<And>r e. e \<in> set (row_entries pfu rows r) \<Longrightarrow> fst e = label r"
    unfolding row_entries_def by (rule join_left_single_labels)
  have "filter (\<lambda>e. fst e = label r) (concat (map (row_entries pfu rows) ?perm))
      = concat (map (\<lambda>r'. if label r' = label r then row_entries pfu rows r' else []) ?perm)"
    using lab by (rule filter_concat_entries)
  also have "\<dots> = row_entries pfu rows r"
    using d rp by (rule pick_row)
  finally show ?thesis by (simp add: concat_group_results)
qed

lemma combine_two_users:
  assumes dl: "distinct (map label rows)"
    and two: "\<exists>r \<in> set rows. \<exists>r' \<in> set rows. user r \<noteq> user r'"
  shows "combine (map (group_result pfu rows) (unique (map user rows)))
    = Series (concat (map (group_result pfu rows) (unique (map user rows))))"
proof -
  let ?us = "unique (map user rows)"
  from two obtain a b where ab: "a \<in> set ?us" "b \<in> set ?us" "a \<noteq> b" by auto
  have "distinct ?us" by simp
  with ab obtain u1 u2 rest where us: "?us = u1 # u2 # rest" and ne: "u1 \<noteq> u2"
    by (cases ?us; cases "tl ?us") auto
  have labels: "set (map fst (group_result pfu rows u)) = label ` set (group_rows rows u)" for u
    unfolding group_result_def by (rule labels_join_left)
  from us have "u1 \<in> set ?us" by simp
  then have "u1 \<in> user ` set rows" by simp
  then obtain r1 where r1: "r1 \<in> set rows" "user r1 = u1" by auto
  have "map fst (group_result pfu rows u2) \<noteq> map fst (group_result pfu rows u1)"
  proof
    assume eq: "map fst (group_result pfu rows u2) = map fst (group_result pfu rows u1)"
    from r1 have "label r1 \<in> label ` set (group_rows rows u1)"
      by (simp add: group_rows_def)
    with eq labels have "label r1 \<in> label ` set (group_rows rows u2)" by metis
    then obtain r2 where r2: "r2 \<in> set rows" "user r2 = u2" "label r2 = label r1"
      by (auto simp add: group_rows_def)
    from dl have "inj_on label (set rows)" by (simp add: distinct_map)
    with r1 r2 have "r1 = r2" by (auto dest: inj_onD)
    with r1 r2 ne show False by simp
  qed
  then show ?thesis
    by (simp add: us combine_def)
qed

lemma loc_series:
  assumes dl: "distinct (map label rows)"
  shows "loc (Series (concat (map (group_result pfu rows) (unique (map user rows)))))
           (map label rows)
         = Inr (Series (concat (map (row_entries pfu rows) rows)))"
proof -
  let ?s = "concat (map (group_result pfu rows) (unique (map user rows)))"
  have look: "filter (\<lambda>e. fst e = label r) ?s = row_entries pfu rows r" if "r \<in> set rows" for r
    using dl that by (rule series_lookup)
  have "list_all (\<lambda>l. l \<in> set (map fst ?s)) (map label rows)"
    unfolding list_all_iff
  proof
    fix l assume "l \<in> set (map label rows)"
    then obtain r where r: "r \<in> set rows" "l = label r" by auto
    have "row_entries pfu rows r \<noteq> []"
      unfolding row_entries_def by (rule join_left_single_nonempty)
    with look [OF r(1)] obtain e where "e \<in> set (filter (\<lambda>e. fst e = label r) ?s)"
      by (cases "row_entries pfu rows r") auto
    then have "e \<in> set ?s" "fst e = l" using r by auto
    then show "l \<in> set (map fst ?s)" by (metis image_eqI set_map)
  qed
  moreover have "concat (map (\<lambda>l. filter (\<lambda>p. fst p = l) ?s) (map label rows))
      = concat (map (row_entries pfu rows) rows)"
  proof -
    have "map (\<lambda>l. filter (\<lambda>p. fst p = l) ?s) (map label rows)
        = map (\<lambda>r. filter (\<lambda>p. fst p = label r) ?s) rows"
      by (simp add: comp_def)
    also have "\<dots> = map (row_entries pfu rows) rows"
      by (rule map_cong [OF refl]) (rule look)
    finally show ?thesis by (rule arg_cong)
  qed
  ultimately show ?thesis by (simp add: loc_def)
qed

lemma predict_series:
  assumes dl: "distinct (map row_label pairs)"
    and two: "\<exists>r \<in> set (project pairs). \<exists>r' \<in> set (project pairs). user r \<noteq> user r'"
    and ok: "\<forall>u \<in> user ` set (project pairs).
       \<exists>p. pfu u (map item (group_rows (project pairs) u)) = Inr p"
  shows "predict pfu pairs None =
    (map (\<lambda>u. (u, map item (group_rows (project pairs) u))) (unique (map user (project pairs))),
     Inr (Series (concat (map (row_entries pfu (project pairs)) (project pairs)))))"
proof -
  have l: "map label (project pairs) = map row_label pairs"
    by (simp add: project_def comp_def)
  with dl have dl': "distinct (map label (project pairs))" by simp
  have a: "apply_groups (upred pfu) (groupby_user (project pairs)) =
    (map (\<lambda>u. (u, map item (group_rows (project pairs) u))) (unique (map user (project pairs))),
     Inr (map (group_result pfu (project pairs)) (unique (map user (project pairs)))))"
    using ok by (rule apply_groups_ok)
  show ?thesis
    unfolding predict_def
    by (simp add: a combine_two_users [OF dl' two] l [symmetric] loc_series [OF dl'])
qed

subsection \<open>From the projected rows back to the input frame\<close>

lemma user_project: "map user (project pairs) = map row_user pairs"
  by (simp add: project_def comp_def)

lemma users_project: "user ` set (project pairs) = row_user ` set pairs"
  by (force simp add: project_def)

lemma items_project: "map item (group_rows (project pairs) u) = requested_items pairs u"
  by (simp add: group_rows_def project_def requested_items_def filter_map comp_def)

lemma calls_project:
  "map (\<lambda>u. (u, map item (group_rows (project pairs) u))) (unique (map user (project pairs)))
     = expected_calls pairs"
  by (simp add: expected_calls_def items_project user_project unique_remdups)

lemma filter_distinct_keys:
  "distinct (map fst ps) \<Longrightarrow>
     filter (\<lambda>p. fst p = k) ps = (case map_of ps k of None \<Rightarrow> [] | Some v \<Rightarrow> [(k, v)])"
proof (induction ps)
  case Nil
  then show ?case by simp
next
  case (Cons p ps)
  obtain a b where p: "p = (a, b)" by (cases p)
  show ?case
  proof (cases "a = k")
    case True
    with Cons.prems p have "k \<notin> fst ` set ps" by auto
    then have "filter (\<lambda>p. fst p = k) ps = []"
      by (auto simp add: filter_empty_conv)
    with True p show ?thesis by simp
  next
    case False
    with Cons p show ?thesis by simp
  qed
qed

lemma row_entries_score:
  assumes "pfu (row_user r) (requested_items pairs (row_user r)) = Inr preds"
    and "distinct (map fst preds)"
  shows "row_entries pfu (project pairs) (UIRow (row_label r) (row_user r) (row_item r))
    = [(row_label r, score_for pfu pairs r)]"
  using assms
  by (simp add: row_entries_def user_preds_def items_project join_left_def score_for_def
      filter_distinct_keys split: option.splits)

lemma predict_calls_prefix:
  "prefix (fst (predict pfu pairs None)) (expected_calls pairs)"
proof -
  let ?rows = "project pairs"
  have "\<forall>u \<in> set (unique (map user ?rows)).
      \<exists>r. upred pfu (group_rows ?rows u) = ([(u, map item (group_rows ?rows u))], r)"
    using upred_group [of _ ?rows pfu] by simp
  then have "prefix (fst (apply_groups (upred pfu) (groupby_user ?rows)))
      (map (\<lambda>u. (u, map item (group_rows ?rows u))) (unique (map user ?rows)))"
    unfolding groupby_groups by (rule apply_groups_prefix)
  moreover have "fst (predict pfu pairs None) = fst (apply_groups (upred pfu) (groupby_user ?rows))"
    by (simp add: predict_def split: prod.splits sum.splits)
  ultimately show ?thesis by (simp add: calls_project)
qed

lemma predict_calls_all:
  assumes "\<forall>c \<in> set (expected_calls pairs). \<exists>p. pfu (fst c) (snd c) = Inr p"
  shows "fst (predict pfu pairs None) = expected_calls pairs"
proof -
  let ?rows = "project pairs"
  have "\<forall>u \<in> user ` set ?rows. \<exists>p. pfu u (map item (group_rows ?rows u)) = Inr p"
  proof
    fix u assume "u \<in> user ` set ?rows"
    then have "(u, requested_items pairs u) \<in> set (expected_calls pairs)"
      by (simp add: expected_calls_def users_project)
    with assms show "\<exists>p. pfu u (map item (group_rows ?rows u)) = Inr p"
      by (fastforce simp add: items_project)
  qed
  then have "apply_groups (upred pfu) (groupby_user ?rows) =
    (map (\<lambda>u. (u, map item (group_rows ?rows u))) (unique (map user ?rows)),
     Inr (map (group_result pfu ?rows) (unique (map user ?rows))))"
    by (rule apply_groups_ok)
  then show ?thesis
    by (simp add: predict_def calls_project)
qed

text \<open>
  Claim C2.  \<^verbatim>\<open>groupby('user', sort=False)\<close> yields one group per distinct user, the
  users in the order of their first appearance in the input and each group holding all
  rows of its user in input order.  The calls of \<^verbatim>\<open>predict_for_user\<close> that \<^verbatim>\<open>predict\<close>
  makes are an initial segment of the expected calls, which name every distinct user
  exactly once, in that order, each with all items requested for the user; and when
  none of these calls raises, the calls made are exactly the expected ones.  (An
  exception of \<^verbatim>\<open>predict_for_user\<close> ends the iteration, so the users after it are not
  asked.)
\<close>

theorem predict_calls:
  "groupby_user (project pairs) =
     map (\<lambda>u. (u, filter (\<lambda>x. user x = u) (project pairs)))
       (rev (remdups (rev (map row_user pairs)))) \<and>
   distinct (map fst (expected_calls pairs)) \<and>
   set (map fst (expected_calls pairs)) = row_user ` set pairs \<and>
   prefix (fst (predict pfu pairs None)) (expected_calls pairs) \<and>
   ((\<forall>c \<in> set (expected_calls pairs). \<exists>p. pfu (fst c) (snd c) = Inr p) \<longrightarrow>
      fst (predict pfu pairs None) = expected_calls pairs)"
proof -
  have "groupby_user (project pairs) =
     map (\<lambda>u. (u, filter (\<lambda>x. user x = u) (project pairs)))
       (rev (remdups (rev (map row_user pairs))))"
    by (simp add: groupby_closed user_project unique_remdups)
  moreover have "map fst (expected_calls pairs) = rev (remdups (rev (map row_user pairs)))"
    by (simp add: expected_calls_def comp_def)
  ultimately show ?thesis
    using predict_calls_prefix [of pfu pairs] predict_calls_all [of pairs pfu]
    by (simp add: users_project [symmetric] user_project [symmetric] unique_remdups [symmetric])
qed

theorem predict_calls_witness:
  "expected_calls pairs_interleaved = [(1, [10, 20, 10]), (2, [10])] \<and>
   fst (predict pfu_table pairs_interleaved None) = [(1, [10, 20, 10]), (2, [10])]"
proof -
  have e: "expected_calls pairs_interleaved = [(1, [10, 20, 10]), (2, [10])]"
    by (simp add: expected_calls_def requested_items_def pairs_interleaved_def)
  have "\<forall>c \<in> set (expected_calls pairs_interleaved). \<exists>p. pfu_table (fst c) (snd c) = Inr p"
    by (simp add: pfu_table_def)
  with predict_calls [of pairs_interleaved pfu_table]
  have "fst (predict pfu_table pairs_interleaved None) = expected_calls pairs_interleaved"
    by blast
  with e show ?thesis by simp
qed

text \<open>
  Claim C1, as amended.  Let the row labels of the pairs frame be pairwise distinct,
  let the frame hold at least two distinct users, and let \<^verbatim>\<open>predict_for_user\<close> honour
  its contract on the calls that are made: for each user of the frame, called with the
  items requested for that user, it returns a Series whose index holds no item twice.
  Then \<^verbatim>\<open>predict\<close> returns a Series with one entry per input row, in input order, and
  entry \<open>i\<close> carries the label of row \<open>i\<close> and the score for row \<open>i\<close>.
\<close>

theorem predict_aligned:
  assumes dl: "distinct (map row_label pairs)"
    and two: "\<exists>r \<in> set pairs. \<exists>r' \<in> set pairs. row_user r \<noteq> row_user r'"
    and contract: "\<forall>u \<in> row_user ` set pairs.
       \<exists>preds. pfu u (requested_items pairs u) = Inr preds \<and> distinct (map fst preds)"
  shows "snd (predict pfu pairs None) =
      Inr (Series (map (\<lambda>r. (row_label r, score_for pfu pairs r)) pairs)) \<and>
    (\<exists>s. snd (predict pfu pairs None) = Inr (Series s) \<and> length s = length pairs \<and>
      (\<forall>i < length pairs. s ! i = (row_label (pairs ! i), score_for pfu pairs (pairs ! i))))"
proof -
  let ?rows = "project pairs"
  from two have two': "\<exists>r \<in> set ?rows. \<exists>r' \<in> set ?rows. user r \<noteq> user r'"
    by (force simp add: project_def)
  from contract have ok: "\<forall>u \<in> user ` set ?rows.
       \<exists>p. pfu u (map item (group_rows ?rows u)) = Inr p"
    by (auto simp add: users_project items_project)
  have "map (row_entries pfu ?rows) ?rows
      = map (\<lambda>r. [(row_label r, score_for pfu pairs r)]) pairs"
    unfolding project_def map_map comp_def
  proof (rule map_cong [OF refl])
    fix r assume "r \<in> set pairs"
    with contract obtain preds where
      "pfu (row_user r) (requested_items pairs (row_user r)) = Inr preds"
      "distinct (map fst preds)" by blast
    then show "row_entries pfu (map (\<lambda>r. UIRow (row_label r) (row_user r) (row_item r)) pairs)
        (UIRow (row_label r) (row_user r) (row_item r)) = [(row_label r, score_for pfu pairs r)]"
      using row_entries_score [of pfu r pairs preds] by (simp add: project_def)
  qed
  then have "concat (map (row_entries pfu ?rows) ?rows)
      = map (\<lambda>r. (row_label r, score_for pfu pairs r)) pairs"
    by simp
  moreover have "predict pfu pairs None =
    (map (\<lambda>u. (u, map item (group_rows ?rows u))) (unique (map user ?rows)),
     Inr (Series (concat (map (row_entries pfu ?rows) ?rows))))"
    using dl two' ok by (rule predict_series)
  ultimately have "snd (predict pfu pairs None) =
      Inr (Series (map (\<lambda>r. (row_label r, score_for pfu pairs r)) pairs))"
    by simp
  then show ?thesis by simp
qed

theorem predict_aligned_witness:
  "distinct (map row_label pairs_interleaved) \<and>
   snd (predict pfu_table pairs_interleaved None) =
     Inr (Series [(5, Some 110), (3, Some 210), (9, Some 120), (4, Some 110)])"
proof -
  have dl: "distinct (map row_label pairs_interleaved)"
    by (simp add: pairs_interleaved_def)
  have two: "\<exists>r \<in> set pairs_interleaved. \<exists>r' \<in> set pairs_interleaved. row_user r \<noteq> row_user r'"
    unfolding pairs_interleaved_def
    by (rule bexI [of _ "PairsRow 5 1 10 ()"], rule bexI [of _ "PairsRow 3 2 10 ()"]) simp_all
  have contract: "\<forall>u \<in> row_user ` set pairs_interleaved.
       \<exists>preds. pfu_table u (requested_items pairs_interleaved u) = Inr preds \<and>
         distinct (map fst preds)"
    by (simp add: pfu_table_def comp_def)
  have "map (\<lambda>r. (row_label r, score_for pfu_table pairs_interleaved r)) pairs_interleaved =
     [(5, Some 110), (3, Some 210), (9, Some 120), (4, Some 110)]"
    by (simp add: pairs_interleaved_def score_for_def requested_items_def pfu_table_def)
  with dl two contract predict_aligned [of pairs_interleaved pfu_table] show ?thesis by simp
qed

text \<open>
  Claim C1 as stated fails where the index of the pairs frame repeats a label.  The
  rows are (user 1, item 10), (user 1, item 20), (user 2, item 10) under the labels
  0, 0, 1, and \<^verbatim>\<open>predict_for_user\<close> answers both users with a Series of distinct items.
  The groups' results have the indexes \<open>[0, 0]\<close> and \<open>[1]\<close>, so they are concatenated,
  and \<^verbatim>\<open>res.loc[[0, 0, 1]]\<close> then selects both entries labelled 0 for each of the two
  requests of label 0: the result has five entries for three input rows.
\<close>

theorem predict_repeated_label:
  "pfu_example 1 (requested_items pairs_repeated_label 1) = Inr [(10, Some 3.5), (20, None)] \<and>
   pfu_example 2 (requested_items pairs_repeated_label 2) = Inr [(10, Some 4)] \<and>
   length pairs_repeated_label = 3 \<and>
   snd (predict pfu_example pairs_repeated_label None) =
     Inr (Series [(0, Some 3.5), (0, None), (0, Some 3.5), (0, None), (1, Some 4)])"
  by (simp add: pairs_repeated_label_def requested_items_def pfu_example_def predict_def
      project_def upred_def join_left_def combine_def loc_def)

text \<open>
  Claim C4 at a frame of a single user.  The rows are (user 1, item 10) and (user 1,
  item 20) under the default labels 0 and 1, and \<^verbatim>\<open>predict_for_user\<close> returns an entry
  for item 10 only.  The left join gives the row of item 20 the no-value marker, but
  the only group's Series is stacked into a DataFrame with one row, numbered 0 once the
  \<^verbatim>\<open>user\<close> index is dropped, and \<^verbatim>\<open>res.loc[[0, 1]]\<close> raises \<^verbatim>\<open>KeyError\<close> for the label
  1: \<^verbatim>\<open>predict\<close> returns no scores at all.  With a third row of another user the same
  request is answered as the claim says.
\<close>

theorem predict_single_user:
  "predict pfu_partial pairs_single_user None = ([(1, [10, 20])], Inl KeyError) \<and>
   predict pfu_partial (pairs_single_user @ [PairsRow 2 2 10 ()]) None =
     ([(1, [10, 20]), (2, [10])], Inr (Series [(0, Some 3.5), (1, None), (2, Some 3.5)]))"
  by (simp add: pairs_single_user_def pfu_partial_def predict_def
      project_def upred_def join_left_def combine_def loc_def)

end
